theory Spec2Isabelle
  imports Complex_Main
begin

section \<open>The GitHub events collector (app.py)\<close>

text \<open>
  The module keeps a global list \<open>events\<close> of dictionaries with the keys \<open>type\<close>,
  \<open>repo\<close> and \<open>created_at\<close>, a stop flag, and a self-rescheduling polling function.
  Three metric functions read the list. Each function is embedded as a function on an
  explicit program state; what the Python standard library does (JSON values, datetime
  arithmetic, \<open>Counter\<close>, \<open>most_common\<close>, \<open>list.sort\<close>) is written out next to the place where
  the module uses it. What the module prints is not part of the state, and the Flask
  routes are embedded from the point where their query parameter has been read.
\<close>

subsection \<open>Values\<close>

text \<open>
  What \<open>response.json()\<close> can return. A JSON object is the association list of its
  decoded dictionary, read with \<open>map_of\<close>; numbers are exact rationals.
\<close>

datatype json =
    JNull
  | JBool bool
  | JNum rat
  | JStr string
  | JList "json list"
  | JDict "(string \<times> json) list"

text \<open>The exceptions that the module's code can meet.\<close>

datatype pyerror =
    KeyError
  | TypeError
  | ValueError
  | OverflowError
  | RequestException
  | JSONDecodeError

text \<open>
  A \<open>datetime\<close> is the number of microseconds since 1970-01-01T00:00:00Z (all datetimes of
  the module are aware and in UTC), a \<open>timedelta\<close> a number of microseconds. Python's
  datetimes range over the years 1 to 9999, and a timedelta holds at most 999999999 days
  in magnitude; arithmetic that leaves these ranges raises \<open>OverflowError\<close>.
\<close>

type_synonym datetime = int
type_synonym timedelta = int

definition datetime_min :: datetime where
  "datetime_min = - 62135596800000000"

definition datetime_max :: datetime where
  "datetime_max = 253402300799999999"

definition valid_datetime :: "datetime \<Rightarrow> bool" where
  "valid_datetime t \<longleftrightarrow> datetime_min \<le> t \<and> t \<le> datetime_max"

definition timedelta_minutes :: "int \<Rightarrow> pyerror + timedelta" where
  \<comment> \<open>\<open>timedelta(minutes=m)\<close>: the days component is \<open>m * 60 // 86400\<close>.\<close>
  "timedelta_minutes m =
     (if \<bar>m div 1440\<bar> > 999999999 then Inl OverflowError else Inr (m * 60000000))"

definition datetime_sub :: "datetime \<Rightarrow> timedelta \<Rightarrow> pyerror + datetime" where
  \<comment> \<open>\<open>dt - td\<close>\<close>
  "datetime_sub t td =
     (if valid_datetime (t - td) then Inr (t - td) else Inl OverflowError)"

definition total_seconds :: "timedelta \<Rightarrow> real" where
  \<comment> \<open>\<open>td.total_seconds()\<close>; the float is taken as the exact quotient\<close>
  "total_seconds td = real_of_int td / 1000000"

subsection \<open>Configuration and state\<close>

definition POLL_INTERVAL :: int where
  "POLL_INTERVAL = 30"

definition EVENT_RETENTION_MINUTES :: int where
  "EVENT_RETENTION_MINUTES = 120"

definition EVENTS_OF_INTEREST :: "string list" where
  "EVENTS_OF_INTEREST = [''PullRequestEvent'', ''WatchEvent'', ''IssuesEvent'']"

text \<open>
  One stored dictionary. \<open>type\<close> is always a string (it was found in
  \<open>EVENTS_OF_INTEREST\<close>); \<open>repo\<close> is whatever value the feed had under
  \<open>event["repo"]["name"]\<close>.
\<close>

record event =
  type :: string
  repo :: json
  created_at :: datetime

text \<open>
  The module state: the global list, the stop flag, and two counters that make the
  effects of a poll cycle visible: the number of calls of \<open>requests.get\<close> made so far and
  the number of timers started by \<open>threading.Timer(...).start()\<close> that have not fired yet.
\<close>

record state =
  events :: "event list"
  stop_event :: bool
  fetches :: nat
  pending_timers :: nat

definition initial_state :: state where
  "initial_state = \<lparr>events = [], stop_event = False, fetches = 0, pending_timers = 0\<rparr>"

subsection \<open>The poll cycle\<close>

text \<open>
  The three things \<open>requests.get(...)\<close> followed by \<open>response.json()\<close> can do: the request
  raises, the decoding raises, or a JSON value comes back.
\<close>

datatype response = TransportFailure | DecodeFailure | Decoded json

text \<open>\<open>v[key]\<close> for a string key.\<close>

fun subscript :: "json \<Rightarrow> string \<Rightarrow> pyerror + json" where
  "subscript (JDict kvs) key = (case map_of kvs key of None \<Rightarrow> Inl KeyError | Some v \<Rightarrow> Inr v)"
| "subscript _ key = Inl TypeError"

text \<open>The values a \<open>for\<close> loop over \<open>v\<close> visits.\<close>

fun py_iter :: "json \<Rightarrow> pyerror + json list" where
  "py_iter (JList xs) = Inr xs"
| "py_iter (JDict kvs) = Inr (map (\<lambda>kv. JStr (fst kv)) kvs)"
| "py_iter (JStr s) = Inr (map (\<lambda>c. JStr [c]) s)"
| "py_iter _ = Inl TypeError"

text \<open>\<open>isinstance(data, dict) and "message" in data\<close>\<close>

fun is_api_error :: "json \<Rightarrow> bool" where
  "is_api_error (JDict kvs) = (map_of kvs ''message'' \<noteq> None)"
| "is_api_error _ = False"

text \<open>
  One iteration of the loop of \<open>fetch_github_events\<close> on the list \<open>evs\<close>. The parser
  \<open>strptime s\<close> stands for \<open>datetime.strptime(s, "%Y-%m-%dT%H:%M:%SZ").replace(tzinfo=utc)\<close>,
  with \<open>None\<close> where Python raises \<open>ValueError\<close>.
\<close>

definition ingest_event ::
  "(string \<Rightarrow> datetime option) \<Rightarrow> json \<Rightarrow> event list \<Rightarrow> pyerror + event list" where
  "ingest_event strptime ev evs =
     (case subscript ev ''type'' of
        Inl err \<Rightarrow> Inl err
      | Inr ty \<Rightarrow>
          (case ty of
             JStr tyname \<Rightarrow>
               if tyname \<in> set EVENTS_OF_INTEREST then
                 (case subscript ev ''repo'' of
                    Inl err \<Rightarrow> Inl err
                  | Inr r \<Rightarrow>
                      (case subscript r ''name'' of
                         Inl err \<Rightarrow> Inl err
                       | Inr repo_name \<Rightarrow>
                           (case subscript ev ''created_at'' of
                              Inl err \<Rightarrow> Inl err
                            | Inr (JStr str) \<Rightarrow>
                                (case strptime str of
                                   None \<Rightarrow> Inl ValueError
                                 | Some t \<Rightarrow>
                                     Inr (evs @ [\<lparr>type = tyname, repo = repo_name,
                                                  created_at = t\<rparr>]))
                            | Inr _ \<Rightarrow> Inl TypeError)))
               else Inr evs
           | _ \<Rightarrow> Inr evs))"

text \<open>
  The loop: the list as it is when the loop ends, and the exception that ended it, if
  any. Records appended before an exception stay in the list.
\<close>

fun ingest ::
  "(string \<Rightarrow> datetime option) \<Rightarrow> json list \<Rightarrow> event list \<Rightarrow> pyerror option \<times> event list" where
  "ingest strptime [] evs = (None, evs)"
| "ingest strptime (ev # rest) evs =
     (case ingest_event strptime ev evs of
        Inl err \<Rightarrow> (Some err, evs)
      | Inr evs' \<Rightarrow> ingest strptime rest evs')"

text \<open>How the \<open>try\<close> block ended.\<close>

datatype outcome = Completed | ApiError | Raised pyerror

text \<open>The pruning of lines 79 and 80.\<close>

definition prune :: "datetime \<Rightarrow> event list \<Rightarrow> pyerror + event list" where
  "prune now evs =
     (case timedelta_minutes EVENT_RETENTION_MINUTES of
        Inl err \<Rightarrow> Inl err
      | Inr td \<Rightarrow>
          (case datetime_sub now td of
             Inl err \<Rightarrow> Inl err
           | Inr cutoff \<Rightarrow> Inr (filter (\<lambda>e. created_at e \<ge> cutoff) evs)))"

text \<open>
  The \<open>try\<close> block (lines 53 to 80), entered only when the stop flag is clear.
  \<open>now\<close> is what \<open>datetime.now(timezone.utc)\<close> returns on line 79.
\<close>

definition poll_body ::
  "(string \<Rightarrow> datetime option) \<Rightarrow> response \<Rightarrow> datetime \<Rightarrow> state \<Rightarrow> outcome \<times> state" where
  "poll_body strptime resp now s =
     (let s1 = s\<lparr>fetches := Suc (fetches s)\<rparr> in
      case resp of
        TransportFailure \<Rightarrow> (Raised RequestException, s1)
      | DecodeFailure \<Rightarrow> (Raised JSONDecodeError, s1)
      | Decoded data \<Rightarrow>
          if is_api_error data then (ApiError, s1)
          else
            (case py_iter data of
               Inl err \<Rightarrow> (Raised err, s1)
             | Inr items \<Rightarrow>
                 (case ingest strptime items (events s1) of
                    (Some err, evs) \<Rightarrow> (Raised err, s1\<lparr>events := evs\<rparr>)
                  | (None, evs) \<Rightarrow>
                      (case prune now evs of
                         Inl err \<Rightarrow> (Raised err, s1\<lparr>events := evs\<rparr>)
                       | Inr kept \<Rightarrow> (Completed, s1\<lparr>events := kept\<rparr>)))))"

text \<open>
  \<open>fetch_github_events\<close>: the early return on the stop flag, the \<open>try\<close> block whose
  exceptions are all caught, and the \<open>finally\<close> clause that starts the next timer.
\<close>

definition fetch_github_events ::
  "(string \<Rightarrow> datetime option) \<Rightarrow> response \<Rightarrow> datetime \<Rightarrow> state \<Rightarrow> state" where
  "fetch_github_events strptime resp now s =
     (if stop_event s then s
      else
        (let s2 = snd (poll_body strptime resp now s) in
         if \<not> stop_event s2 then s2\<lparr>pending_timers := Suc (pending_timers s2)\<rparr> else s2))"

text \<open>
  What can happen to the module after start-up: a pending timer fires and calls
  \<open>fetch_github_events\<close> (with the response and the clock reading of that cycle), or a signal
  arrives and \<open>handle_shutdown\<close> sets the stop flag.
\<close>

datatype action = TimerFires response datetime | Shutdown

fun step :: "(string \<Rightarrow> datetime option) \<Rightarrow> action \<Rightarrow> state \<Rightarrow> state" where
  "step strptime (TimerFires resp now) s =
     (if pending_timers s = 0 then s
      else fetch_github_events strptime resp now (s\<lparr>pending_timers := pending_timers s - 1\<rparr>))"
| "step strptime Shutdown s = s\<lparr>stop_event := True\<rparr>"

fun run :: "(string \<Rightarrow> datetime option) \<Rightarrow> action list \<Rightarrow> state \<Rightarrow> state" where
  "run strptime [] s = s"
| "run strptime (a # as) s = run strptime as (step strptime a s)"

text \<open>
  The module itself: line 244 calls \<open>fetch_github_events\<close> once on the empty list, and the
  timers and signals follow.
\<close>

definition module_run ::
  "(string \<Rightarrow> datetime option) \<Rightarrow> response \<Rightarrow> datetime \<Rightarrow> action list \<Rightarrow> state" where
  "module_run strptime resp now as =
     run strptime as (fetch_github_events strptime resp now initial_state)"

text \<open>
  The module has no lock: the polling thread appends to the global list one record at a
  time and finally rebinds the name to the pruned list, while request threads read the
  global. \<open>ingest_views\<close> lists the values of the list at the start of each loop iteration
  and at the end of the loop; \<open>cycle_views\<close> lists every value the global \<open>events\<close> has
  during one call of \<open>fetch_github_events\<close>, in order.
\<close>

fun ingest_views ::
  "(string \<Rightarrow> datetime option) \<Rightarrow> json list \<Rightarrow> event list \<Rightarrow> event list list" where
  "ingest_views strptime [] evs = [evs]"
| "ingest_views strptime (ev # rest) evs =
     evs # (case ingest_event strptime ev evs of
              Inl err \<Rightarrow> []
            | Inr evs' \<Rightarrow> ingest_views strptime rest evs')"

definition cycle_views ::
  "(string \<Rightarrow> datetime option) \<Rightarrow> response \<Rightarrow> datetime \<Rightarrow> state \<Rightarrow> event list list" where
  "cycle_views strptime resp now s =
     (if stop_event s then [events s]
      else
        (case resp of
           TransportFailure \<Rightarrow> [events s]
         | DecodeFailure \<Rightarrow> [events s]
         | Decoded data \<Rightarrow>
             if is_api_error data then [events s]
             else
               (case py_iter data of
                  Inl err \<Rightarrow> [events s]
                | Inr items \<Rightarrow>
                    ingest_views strptime items (events s) @
                    (case ingest strptime items (events s) of
                       (Some err, evs) \<Rightarrow> []
                     | (None, evs) \<Rightarrow>
                         (case prune now evs of Inl err \<Rightarrow> [] | Inr kept \<Rightarrow> [kept])))))"

text \<open>
  The batch of a call: the records that the loop of lines 68 to 76 appends. What the
  loop appends does not depend on the list it appends to, so the batch is what the
  loop leaves when it starts on the empty list (up to the exception that ends it, if
  one does). A call that returns before the loop has the empty batch.
\<close>

definition cycle_batch ::
  "(string \<Rightarrow> datetime option) \<Rightarrow> response \<Rightarrow> state \<Rightarrow> event list" where
  "cycle_batch strptime resp s =
     (if stop_event s then []
      else
        (case resp of
           TransportFailure \<Rightarrow> []
         | DecodeFailure \<Rightarrow> []
         | Decoded data \<Rightarrow>
             if is_api_error data then []
             else
               (case py_iter data of
                  Inl err \<Rightarrow> []
                | Inr items \<Rightarrow> snd (ingest strptime items []))))"

subsection \<open>Metrics\<close>

text \<open>
  \<open>average_pr_time\<close>. The list comprehension builds a new list, which \<open>list.sort\<close> then
  sorts in place (a stable sort by the key); the global list is only read.
\<close>

definition average_pr_time :: "string \<Rightarrow> state \<Rightarrow> real option \<times> state" where
  "average_pr_time repo_name s =
     (let pr_events = filter (\<lambda>e. type e = ''PullRequestEvent'' \<and> repo e = JStr repo_name)
                        (events s);
          pr_events = sort_key created_at pr_events
      in if length pr_events < 2 then (None, s)
         else
           (let time_diffs =
                  map (\<lambda>i. total_seconds
                              (created_at (pr_events ! i) - created_at (pr_events ! (i - 1))))
                    [1 ..< length pr_events]
            in (Some (sum_list time_diffs / real (length time_diffs)), s)))"

text \<open>
  \<open>collections.Counter\<close> over an iterable: a dictionary in insertion order, here the list
  of its items. \<open>eq\<close> is the equality on keys.
\<close>

fun counter_add :: "('k \<Rightarrow> 'k \<Rightarrow> bool) \<Rightarrow> 'k \<Rightarrow> ('k \<times> nat) list \<Rightarrow> ('k \<times> nat) list" where
  "counter_add eq k [] = [(k, 1)]"
| "counter_add eq k ((k', c) # rest) =
     (if eq k' k then (k', Suc c) # rest else (k', c) # counter_add eq k rest)"

definition Counter :: "('k \<Rightarrow> 'k \<Rightarrow> bool) \<Rightarrow> 'k list \<Rightarrow> ('k \<times> nat) list" where
  "Counter eq xs = foldl (\<lambda>items k. counter_add eq k items) [] xs"

text \<open>
  \<open>count_events\<close>; \<open>now\<close> is what \<open>datetime.now(timezone.utc)\<close> returns on line 124.
\<close>

definition count_events ::
  "datetime \<Rightarrow> int \<Rightarrow> state \<Rightarrow> (pyerror + (string \<times> nat) list) \<times> state" where
  "count_events now offset_minutes s =
     (case timedelta_minutes offset_minutes of
        Inl err \<Rightarrow> (Inl err, s)
      | Inr td \<Rightarrow>
          (case datetime_sub now td of
             Inl err \<Rightarrow> (Inl err, s)
           | Inr cutoff \<Rightarrow>
               (let recent_events = filter (\<lambda>e. created_at e \<ge> cutoff) (events s)
                in (Inr (Counter (=) (map type recent_events)), s))))"

text \<open>
  Python's \<open>==\<close> and \<open>hash\<close> on decoded JSON values, as a dictionary uses them for its keys:
  \<open>True == 1\<close> and \<open>False == 0\<close>, and lists and dictionaries cannot be hashed.
\<close>

fun py_num :: "json \<Rightarrow> rat option" where
  "py_num (JBool b) = Some (if b then 1 else 0)"
| "py_num (JNum q) = Some q"
| "py_num _ = None"

definition py_eq :: "json \<Rightarrow> json \<Rightarrow> bool" where
  "py_eq a b =
     (case (py_num a, py_num b) of
        (Some x, Some y) \<Rightarrow> x = y
      | (None, None) \<Rightarrow> a = b
      | _ \<Rightarrow> False)"

fun hashable :: "json \<Rightarrow> bool" where
  "hashable (JList xs) = False"
| "hashable (JDict kvs) = False"
| "hashable _ = True"

text \<open>
  \<open>Counter.most_common(n)\<close> is \<open>heapq.nlargest(n, items, key=count)\<close>, which returns what
  \<open>sorted(items, key=count, reverse=True)[:n]\<close> returns for \<open>n \<ge> 0\<close> and the empty list
  for negative \<open>n\<close>; the sort is stable, so items with equal counts keep their insertion
  order.
\<close>

definition most_common :: "int \<Rightarrow> ('k \<times> nat) list \<Rightarrow> ('k \<times> nat) list" where
  "most_common n items = take (nat n) (sort_key (\<lambda>item. - int (snd item)) items)"

text \<open>
  \<open>top_repos\<close> after the query parameter has been read: \<open>top_n\<close> is the integer, and the
  result is the list of the pairs (\<open>repo\<close>, \<open>event_count\<close>) handed to \<open>jsonify\<close>.
\<close>

definition top_repos :: "int \<Rightarrow> state \<Rightarrow> (pyerror + (json \<times> nat) list) \<times> state" where
  "top_repos top_n s =
     (let pr_events = filter (\<lambda>e. type e = ''PullRequestEvent'') (events s) in
      if \<not> list_all hashable (map repo pr_events) then (Inl TypeError, s)
      else
        (let repo_counts = Counter py_eq (map repo pr_events);
             top_list = most_common top_n repo_counts
         in (Inr top_list, s)))"

subsection \<open>The metrics as the specification words them\<close>

text \<open>
  \<open>AveragePRInterval\<close>: select, sort ascending by timestamp, take the consecutive
  differences in seconds, return their arithmetic mean; no result below two records.
\<close>

fun consecutive_diffs :: "int list \<Rightarrow> int list" where
  "consecutive_diffs (x # y # rest) = (y - x) # consecutive_diffs (y # rest)"
| "consecutive_diffs _ = []"

definition arithmetic_mean :: "real list \<Rightarrow> real" where
  "arithmetic_mean xs = sum_list xs / real (length xs)"

definition AveragePRInterval :: "string \<Rightarrow> event list \<Rightarrow> real option" where
  "AveragePRInterval r evs =
     (let ts = sort (map created_at
                 (filter (\<lambda>e. type e = ''PullRequestEvent'' \<and> repo e = JStr r) evs))
      in if length ts < 2 then None
         else Some (arithmetic_mean (map (\<lambda>d. real_of_int d / 1000000) (consecutive_diffs ts))))"

text \<open>The number of stored records of kind \<open>k\<close> that are not older than \<open>cutoff\<close>.\<close>

definition count_in_window :: "datetime \<Rightarrow> string \<Rightarrow> event list \<Rightarrow> nat" where
  "count_in_window cutoff k evs =
     length (filter (\<lambda>e. type e = k \<and> created_at e \<ge> cutoff) evs)"

text \<open>The number of stored PullRequest records of repository \<open>r\<close>.\<close>

definition pr_count :: "json \<Rightarrow> event list \<Rightarrow> nat" where
  "pr_count r evs = length (filter (\<lambda>e. type e = ''PullRequestEvent'' \<and> repo e = r) evs)"

subsection \<open>Sample data\<close>

text \<open>
  Records, a store and a parser that knows four timestamps, for the examples.
  \<open>1767225600\<close> is 2026-01-01T00:00:00Z in seconds.
\<close>

definition pull_request :: "string \<Rightarrow> datetime \<Rightarrow> event" where
  "pull_request r t = \<lparr>type = ''PullRequestEvent'', repo = JStr r, created_at = t\<rparr>"

definition watch :: "string \<Rightarrow> datetime \<Rightarrow> event" where
  "watch r t = \<lparr>type = ''WatchEvent'', repo = JStr r, created_at = t\<rparr>"

definition store_of :: "event list \<Rightarrow> state" where
  "store_of evs = \<lparr>events = evs, stop_event = False, fetches = 1, pending_timers = 1\<rparr>"

definition sample_strptime :: "string \<Rightarrow> datetime option" where
  "sample_strptime str =
     (if str = ''2026-01-01T00:00:00Z'' then Some 1767225600000000
      else if str = ''2026-01-01T00:00:10Z'' then Some 1767225610000000
      else if str = ''2026-01-01T00:00:30Z'' then Some 1767225630000000
      else if str = ''2025-12-31T20:00:00Z'' then Some 1767211200000000
      else None)"

definition feed_event :: "string \<Rightarrow> string \<Rightarrow> string \<Rightarrow> json" where
  "feed_event ty name str =
     JDict [(''id'', JStr ''1''), (''type'', JStr ty),
            (''repo'', JDict [(''id'', JNum 7), (''name'', JStr name)]),
            (''created_at'', JStr str)]"

section \<open>Properties of the poll cycle\<close>

subsection \<open>Flags and counters\<close>

lemma poll_body_flags:
  "stop_event (snd (poll_body strptime resp now s)) = stop_event s"
  "pending_timers (snd (poll_body strptime resp now s)) = pending_timers s"
  "fetches (snd (poll_body strptime resp now s)) = Suc (fetches s)"
  by (auto simp: poll_body_def Let_def split: response.splits sum.splits prod.splits option.splits)

lemma fetch_stopped: "stop_event s \<Longrightarrow> fetch_github_events strptime resp now s = s"
  by (simp add: fetch_github_events_def)

lemma step_stopped:
  assumes "stop_event s"
  shows "events (step strptime a s) = events s \<and> fetches (step strptime a s) = fetches s
    \<and> pending_timers (step strptime a s) \<le> pending_timers s \<and> stop_event (step strptime a s)"
  using assms by (cases a) (simp_all add: fetch_stopped)

lemma run_stopped:
  "stop_event s \<Longrightarrow> events (run strptime as s) = events s \<and> fetches (run strptime as s) = fetches s
    \<and> pending_timers (run strptime as s) \<le> pending_timers s \<and> stop_event (run strptime as s)"
proof (induction as arbitrary: s)
  case Nil
  then show ?case by simp
next
  case (Cons a as)
  have st: "stop_event (step strptime a s)"
    using step_stopped [OF Cons.prems] by simp
  from Cons.IH [OF st] step_stopped [OF Cons.prems, of strptime a]
  show ?case by simp
qed

lemma fetch_events_unchanged_on_failure:
  assumes "resp = TransportFailure \<or> resp = DecodeFailure
    \<or> (\<exists>data. resp = Decoded data \<and> is_api_error data)"
  shows "events (fetch_github_events strptime resp now s) = events s"
  using assms by (auto simp: fetch_github_events_def poll_body_def Let_def)

lemma average_pr_time_reads_events:
  "events s' = events s \<Longrightarrow> fst (average_pr_time r s') = fst (average_pr_time r s)"
  by (simp add: average_pr_time_def Let_def)

lemma count_events_reads_events:
  "events s' = events s \<Longrightarrow> fst (count_events t w s') = fst (count_events t w s)"
  by (simp add: count_events_def Let_def split: sum.splits)

lemma top_repos_reads_events:
  "events s' = events s \<Longrightarrow> fst (top_repos n s') = fst (top_repos n s)"
  by (simp add: top_repos_def Let_def)

lemma ingest_event_interest:
  assumes "ingest_event strptime ev evs = Inr evs'"
    and "\<forall>e\<in>set evs. type e \<in> set EVENTS_OF_INTEREST"
  shows "\<forall>e\<in>set evs'. type e \<in> set EVENTS_OF_INTEREST"
  using assms
  by (auto simp: ingest_event_def split: sum.splits json.splits if_splits option.splits)

lemma ingest_interest:
  "\<forall>e\<in>set evs. type e \<in> set EVENTS_OF_INTEREST \<Longrightarrow>
   \<forall>e\<in>set (snd (ingest strptime items evs)). type e \<in> set EVENTS_OF_INTEREST"
proof (induction items arbitrary: evs)
  case Nil
  then show ?case by simp
next
  case (Cons ev items)
  show ?case
  proof (cases "ingest_event strptime ev evs")
    case (Inl err)
    then show ?thesis using Cons.prems by simp
  next
    case (Inr evs')
    then show ?thesis
      using Cons.IH [OF ingest_event_interest [OF Inr Cons.prems]] by simp
  qed
qed

lemma prune_subset: "prune now evs = Inr kept \<Longrightarrow> set kept \<subseteq> set evs"
  by (auto simp: prune_def split: sum.splits)

lemma prune_retention:
  "prune now evs = Inr kept \<Longrightarrow>
   kept = filter (\<lambda>e. created_at e \<ge> now - EVENT_RETENTION_MINUTES * 60000000) evs"
  by (auto simp: prune_def timedelta_minutes_def datetime_sub_def split: sum.splits if_splits)

lemma poll_body_interest:
  assumes "\<forall>e\<in>set (events s). type e \<in> set EVENTS_OF_INTEREST"
  shows "\<forall>e\<in>set (events (snd (poll_body strptime resp now s))). type e \<in> set EVENTS_OF_INTEREST"
proof (cases resp)
  case (Decoded data)
  show ?thesis
  proof (cases "py_iter data")
    case (Inl err)
    then show ?thesis using assms Decoded by (simp add: poll_body_def Let_def)
  next
    case (Inr items)
    obtain err evs where ing: "ingest strptime items (events s) = (err, evs)"
      by (cases "ingest strptime items (events s)")
    have evs: "\<forall>e\<in>set evs. type e \<in> set EVENTS_OF_INTEREST"
      using ingest_interest [OF assms, of strptime items] ing by simp
    show ?thesis
      using assms Decoded Inr ing evs
      by (auto simp: poll_body_def Let_def split: option.splits sum.splits dest: prune_subset)
  qed
qed (use assms in \<open>simp_all add: poll_body_def Let_def\<close>)

lemma fetch_interest:
  assumes "\<forall>e\<in>set (events s). type e \<in> set EVENTS_OF_INTEREST"
  shows "\<forall>e\<in>set (events (fetch_github_events strptime resp now s)). type e \<in> set EVENTS_OF_INTEREST"
  using assms poll_body_interest [OF assms, of strptime resp now]
  by (simp add: fetch_github_events_def Let_def)

lemma step_interest:
  assumes "\<forall>e\<in>set (events s). type e \<in> set EVENTS_OF_INTEREST"
  shows "\<forall>e\<in>set (events (step strptime a s)). type e \<in> set EVENTS_OF_INTEREST"
proof (cases a)
  case (TimerFires resp now)
  have "\<forall>e\<in>set (events (s\<lparr>pending_timers := pending_timers s - 1\<rparr>)). type e \<in> set EVENTS_OF_INTEREST"
    using assms by simp
  from fetch_interest [OF this] show ?thesis using assms TimerFires by simp
next
  case Shutdown
  then show ?thesis using assms by simp
qed

lemma run_interest:
  "\<forall>e\<in>set (events s). type e \<in> set EVENTS_OF_INTEREST \<Longrightarrow>
   \<forall>e\<in>set (events (run strptime as s)). type e \<in> set EVENTS_OF_INTEREST"
proof (induction as arbitrary: s)
  case Nil
  then show ?case by simp
next
  case (Cons a as)
  from Cons.IH [OF step_interest [OF Cons.prems]] show ?case by simp
qed

lemma poll_body_Completed:
  assumes "fst (poll_body strptime resp now s) = Completed"
  shows "\<exists>data items evs kept. resp = Decoded data \<and> \<not> is_api_error data
    \<and> py_iter data = Inr items \<and> ingest strptime items (events s) = (None, evs)
    \<and> prune now evs = Inr kept
    \<and> snd (poll_body strptime resp now s) = s\<lparr>fetches := Suc (fetches s), events := kept\<rparr>"
proof (cases resp)
  case (Decoded data)
  show ?thesis
  proof (cases "py_iter data")
    case (Inl err)
    then show ?thesis using assms Decoded by (simp add: poll_body_def Let_def split: if_splits)
  next
    case (Inr items)
    obtain err evs where ing: "ingest strptime items (events s) = (err, evs)"
      by (cases "ingest strptime items (events s)")
    show ?thesis
    proof (cases "prune now evs")
      case (Inl e)
      then show ?thesis using assms Decoded Inr ing
        by (cases err) (simp_all add: poll_body_def Let_def split: if_splits)
    next
      case (Inr kept)
      then show ?thesis using assms Decoded \<open>py_iter data = Inr items\<close> ing
        by (cases err) (simp_all add: poll_body_def Let_def split: if_splits)
    qed
  qed
qed (use assms in \<open>simp_all add: poll_body_def Let_def\<close>)

lemma ingest_event_feed_event:
  "ingest_event strptime (feed_event ty name str) evs =
     (if ty \<in> set EVENTS_OF_INTEREST then
        (case strptime str of
           None \<Rightarrow> Inl ValueError
         | Some t \<Rightarrow> Inr (evs @ [\<lparr>type = ty, repo = JStr name, created_at = t\<rparr>]))
      else Inr evs)"
  by (simp add: ingest_event_def feed_event_def)

lemmas cycle_eval =
  fetch_github_events_def poll_body_def ingest_event_feed_event sample_strptime_def
  EVENTS_OF_INTEREST_def prune_def timedelta_minutes_def datetime_sub_def valid_datetime_def
  datetime_min_def datetime_max_def EVENT_RETENTION_MINUTES_def Let_def store_of_def
  pull_request_def watch_def

subsection \<open>Retention\<close>

text \<open>
  C1. A poll cycle that runs to its end (the stop flag is clear and the \<open>try\<close> block
  completes, so the batch was appended and the pruning of lines 79 and 80 ran at clock
  reading \<open>now\<close>) leaves only records with \<open>created_at \<ge> now - EVENT_RETENTION_MINUTES\<close>
  in the store, whatever the store held before and whatever the feed returned.
\<close>

theorem retention_after_successful_cycle:
  assumes "\<not> stop_event s"
    and "fst (poll_body strptime resp now s) = Completed"
  shows "\<forall>e\<in>set (events (fetch_github_events strptime resp now s)).
           created_at e \<ge> now - EVENT_RETENTION_MINUTES * 60000000"
proof -
  from poll_body_Completed [OF assms(2)] obtain evs kept where
    pr: "prune now evs = Inr kept" and
    sn: "snd (poll_body strptime resp now s) = s\<lparr>fetches := Suc (fetches s), events := kept\<rparr>"
    by blast
  have "events (fetch_github_events strptime resp now s) = kept"
    using assms(1) sn by (simp add: fetch_github_events_def Let_def)
  then show ?thesis using prune_retention [OF pr] by simp
qed

theorem retention_after_successful_cycle_witness:
  "\<not> stop_event (store_of [watch ''octo/old'' 1767000000000000])
   \<and> fst (poll_body sample_strptime
        (Decoded (JList
           [feed_event ''PullRequestEvent'' ''octo/cat'' ''2026-01-01T00:00:00Z'',
            feed_event ''IssuesEvent'' ''octo/dog'' ''2025-12-31T20:00:00Z'',
            feed_event ''WatchEvent'' ''octo/dog'' ''2026-01-01T00:00:30Z'']))
        1767225640000000 (store_of [watch ''octo/old'' 1767000000000000])) = Completed
   \<and> events (fetch_github_events sample_strptime
        (Decoded (JList
           [feed_event ''PullRequestEvent'' ''octo/cat'' ''2026-01-01T00:00:00Z'',
            feed_event ''IssuesEvent'' ''octo/dog'' ''2025-12-31T20:00:00Z'',
            feed_event ''WatchEvent'' ''octo/dog'' ''2026-01-01T00:00:30Z'']))
        1767225640000000 (store_of [watch ''octo/old'' 1767000000000000]))
      = [pull_request ''octo/cat'' 1767225600000000, watch ''octo/dog'' 1767225630000000]
   \<and> list_all (\<lambda>e. created_at e \<ge> 1767225640000000 - EVENT_RETENTION_MINUTES * 60000000)
        [pull_request ''octo/cat'' 1767225600000000, watch ''octo/dog'' 1767225630000000]"
proof -
  let ?resp = "Decoded (JList
           [feed_event ''PullRequestEvent'' ''octo/cat'' ''2026-01-01T00:00:00Z'',
            feed_event ''IssuesEvent'' ''octo/dog'' ''2025-12-31T20:00:00Z'',
            feed_event ''WatchEvent'' ''octo/dog'' ''2026-01-01T00:00:30Z''])"
  let ?s = "store_of [watch ''octo/old'' 1767000000000000]"
  have h1: "\<not> stop_event ?s"
    by (simp add: store_of_def)
  have h2: "fst (poll_body sample_strptime ?resp 1767225640000000 ?s) = Completed"
    by (simp add: cycle_eval)
  have ev: "events (fetch_github_events sample_strptime ?resp 1767225640000000 ?s)
      = [pull_request ''octo/cat'' 1767225600000000, watch ''octo/dog'' 1767225630000000]"
    by (simp add: cycle_eval)
  from retention_after_successful_cycle [OF h1 h2] h1 h2 ev show ?thesis
    by simp
qed

subsection \<open>Failed fetches\<close>

text \<open>
  C6. When \<open>requests.get\<close> raises (transport failure), when \<open>response.json()\<close> raises (decode
  failure), or when the feed answers with an error object (a dictionary with the key
  \<open>message\<close>), the call of \<open>fetch_github_events\<close> leaves the stored list as it was: nothing
  is appended and nothing is pruned. The call returns normally, so the three metric
  functions return on the new state what they returned before, and the next cycle is
  scheduled unless the stop flag is set.
\<close>

theorem failed_fetch_skips_ingestion:
  assumes "resp = TransportFailure \<or> resp = DecodeFailure
    \<or> (\<exists>data. resp = Decoded data \<and> is_api_error data)"
  shows "events (fetch_github_events strptime resp now s) = events s
    \<and> fst (average_pr_time r (fetch_github_events strptime resp now s)) = fst (average_pr_time r s)
    \<and> fst (count_events t w (fetch_github_events strptime resp now s)) = fst (count_events t w s)
    \<and> fst (top_repos n (fetch_github_events strptime resp now s)) = fst (top_repos n s)
    \<and> (\<not> stop_event s \<longrightarrow>
         pending_timers (fetch_github_events strptime resp now s) = Suc (pending_timers s))"
proof -
  have ev: "events (fetch_github_events strptime resp now s) = events s"
    using assms by (rule fetch_events_unchanged_on_failure)
  have "\<not> stop_event s \<longrightarrow>
      pending_timers (fetch_github_events strptime resp now s) = Suc (pending_timers s)"
    by (simp add: fetch_github_events_def Let_def poll_body_flags)
  with ev average_pr_time_reads_events [OF ev] count_events_reads_events [OF ev]
    top_repos_reads_events [OF ev]
  show ?thesis by blast
qed

theorem failed_fetch_skips_ingestion_witness:
  "is_api_error (JDict [(''message'', JStr ''API rate limit exceeded''),
                        (''documentation_url'', JStr ''https://docs.github.com'')])
   \<and> events (fetch_github_events sample_strptime
        (Decoded (JDict [(''message'', JStr ''API rate limit exceeded''),
                         (''documentation_url'', JStr ''https://docs.github.com'')]))
        1767225640000000 (store_of [watch ''octo/old'' 1767000000000000]))
      = [watch ''octo/old'' 1767000000000000]
   \<and> events (fetch_github_events sample_strptime TransportFailure
        1767225640000000 (store_of [watch ''octo/old'' 1767000000000000]))
      = [watch ''octo/old'' 1767000000000000]
   \<and> events (fetch_github_events sample_strptime DecodeFailure
        1767225640000000 (store_of [watch ''octo/old'' 1767000000000000]))
      = [watch ''octo/old'' 1767000000000000]"
proof -
  let ?data = "JDict [(''message'', JStr ''API rate limit exceeded''),
                      (''documentation_url'', JStr ''https://docs.github.com'')]"
  let ?s = "store_of [watch ''octo/old'' 1767000000000000]"
  have h: "is_api_error ?data" by simp
  have ev: "events ?s = [watch ''octo/old'' 1767000000000000]"
    by (simp add: store_of_def)
  have "events (fetch_github_events sample_strptime (Decoded ?data) 1767225640000000 ?s) = events ?s"
    using failed_fetch_skips_ingestion [of "Decoded ?data" sample_strptime 1767225640000000 ?s] h
    by blast
  moreover
  have "events (fetch_github_events sample_strptime TransportFailure 1767225640000000 ?s) = events ?s"
    using failed_fetch_skips_ingestion [of TransportFailure sample_strptime 1767225640000000 ?s]
    by blast
  moreover
  have "events (fetch_github_events sample_strptime DecodeFailure 1767225640000000 ?s) = events ?s"
    using failed_fetch_skips_ingestion [of DecodeFailure sample_strptime 1767225640000000 ?s]
    by blast
  ultimately show ?thesis using h ev by simp
qed

text \<open>
  The three failures of C6 happen before the loop starts. An exception raised inside the
  loop is caught as well, but there the records appended before it stay in the list and
  the pruning is skipped: below, the second record of the feed has a timestamp that does
  not parse.
\<close>

lemma exception_in_loop_keeps_earlier_records:
  "snd (poll_body sample_strptime
      (Decoded (JList
         [feed_event ''PullRequestEvent'' ''octo/cat'' ''2026-01-01T00:00:00Z'',
          feed_event ''PullRequestEvent'' ''octo/cat'' ''yesterday'',
          feed_event ''WatchEvent'' ''octo/dog'' ''2026-01-01T00:00:30Z'']))
      1767225640000000 (store_of [watch ''octo/old'' 1767000000000000]))
     = \<lparr>events = [watch ''octo/old'' 1767000000000000,
                   pull_request ''octo/cat'' 1767225600000000],
        stop_event = False, fetches = 2, pending_timers = 1\<rparr>
   \<and> fst (poll_body sample_strptime
      (Decoded (JList
         [feed_event ''PullRequestEvent'' ''octo/cat'' ''2026-01-01T00:00:00Z'',
          feed_event ''PullRequestEvent'' ''octo/cat'' ''yesterday'',
          feed_event ''WatchEvent'' ''octo/dog'' ''2026-01-01T00:00:30Z'']))
      1767225640000000 (store_of [watch ''octo/old'' 1767000000000000]))
     = Raised ValueError"
  by (simp add: cycle_eval)

subsection \<open>The stop flag\<close>

text \<open>
  C7. When the stop flag is set at the start of a call of \<open>fetch_github_events\<close>, the call
  changes nothing: no request is made, the stored list is the same, and no timer is
  started. From a state with the flag set, no sequence of timer firings and signals
  makes a request or changes the stored list, and no timer is added.
\<close>

theorem stop_ends_polling:
  assumes "stop_event s"
  shows "fetch_github_events strptime resp now s = s
    \<and> events (run strptime as s) = events s
    \<and> fetches (run strptime as s) = fetches s
    \<and> pending_timers (run strptime as s) \<le> pending_timers s"
  using assms fetch_stopped run_stopped by blast

theorem stop_ends_polling_witness:
  "stop_event \<lparr>events = [watch ''octo/old'' 1767000000000000], stop_event = True,
               fetches = 3, pending_timers = 2\<rparr>
   \<and> fetch_github_events sample_strptime
        (Decoded (JList [feed_event ''PullRequestEvent'' ''octo/cat'' ''2026-01-01T00:00:00Z'']))
        1767225640000000
        \<lparr>events = [watch ''octo/old'' 1767000000000000], stop_event = True,
          fetches = 3, pending_timers = 2\<rparr>
      = \<lparr>events = [watch ''octo/old'' 1767000000000000], stop_event = True,
          fetches = 3, pending_timers = 2\<rparr>
   \<and> events (run sample_strptime
        [TimerFires (Decoded (JList
           [feed_event ''PullRequestEvent'' ''octo/cat'' ''2026-01-01T00:00:00Z'']))
           1767225640000000,
         Shutdown,
         TimerFires (Decoded (JList
           [feed_event ''WatchEvent'' ''octo/dog'' ''2026-01-01T00:00:30Z'']))
           1767225670000000]
        \<lparr>events = [watch ''octo/old'' 1767000000000000], stop_event = True,
          fetches = 3, pending_timers = 2\<rparr>)
      = [watch ''octo/old'' 1767000000000000]"
proof -
  let ?s = "\<lparr>events = [watch ''octo/old'' 1767000000000000], stop_event = True,
             fetches = 3, pending_timers = 2\<rparr>"
  let ?r1 = "Decoded (JList [feed_event ''PullRequestEvent'' ''octo/cat'' ''2026-01-01T00:00:00Z''])"
  let ?r2 = "Decoded (JList [feed_event ''WatchEvent'' ''octo/dog'' ''2026-01-01T00:00:30Z''])"
  have h: "stop_event ?s" by simp
  from stop_ends_polling [OF h, of sample_strptime ?r1 1767225640000000
      "[TimerFires ?r1 1767225640000000, Shutdown, TimerFires ?r2 1767225670000000]"] h
  show ?thesis by simp
qed

subsection \<open>Kinds of stored records\<close>

text \<open>
  C8. Whatever the feed returns in the first cycle and in the cycles that follow, and
  whenever signals arrive, every record in the store has one of the three kinds of
  \<open>EVENTS_OF_INTEREST\<close>: PullRequestEvent, WatchEvent or IssuesEvent.
\<close>

theorem only_kinds_of_interest_stored:
  "\<forall>e\<in>set (events (module_run strptime resp now as)).
     type e \<in> {''PullRequestEvent'', ''WatchEvent'', ''IssuesEvent''}"
proof -
  have "\<forall>e\<in>set (events initial_state). type e \<in> set EVENTS_OF_INTEREST"
    by (simp add: initial_state_def)
  from run_interest [OF fetch_interest [OF this]]
  have "\<forall>e\<in>set (events (module_run strptime resp now as)). type e \<in> set EVENTS_OF_INTEREST"
    by (simp add: module_run_def)
  then show ?thesis by (simp add: EVENTS_OF_INTEREST_def)
qed

theorem only_kinds_of_interest_stored_witness:
  "events (module_run sample_strptime
      (Decoded (JList
         [feed_event ''PushEvent'' ''octo/cat'' ''2026-01-01T00:00:00Z'',
          feed_event ''PullRequestEvent'' ''octo/cat'' ''2026-01-01T00:00:10Z'']))
      1767225640000000
      [TimerFires (Decoded (JList
         [feed_event ''WatchEvent'' ''octo/dog'' ''2026-01-01T00:00:30Z'',
          feed_event ''ForkEvent'' ''octo/dog'' ''2026-01-01T00:00:30Z'']))
         1767225670000000])
     = [pull_request ''octo/cat'' 1767225610000000, watch ''octo/dog'' 1767225630000000]
   \<and> list_all (\<lambda>e. type e \<in> {''PullRequestEvent'', ''WatchEvent'', ''IssuesEvent''})
        [pull_request ''octo/cat'' 1767225610000000, watch ''octo/dog'' 1767225630000000]"
proof -
  let ?r1 = "Decoded (JList
         [feed_event ''PushEvent'' ''octo/cat'' ''2026-01-01T00:00:00Z'',
          feed_event ''PullRequestEvent'' ''octo/cat'' ''2026-01-01T00:00:10Z''])"
  let ?r2 = "Decoded (JList
         [feed_event ''WatchEvent'' ''octo/dog'' ''2026-01-01T00:00:30Z'',
          feed_event ''ForkEvent'' ''octo/dog'' ''2026-01-01T00:00:30Z''])"
  have ev: "events (module_run sample_strptime ?r1 1767225640000000
               [TimerFires ?r2 1767225670000000])
     = [pull_request ''octo/cat'' 1767225610000000, watch ''octo/dog'' 1767225630000000]"
    by (simp add: module_run_def initial_state_def cycle_eval)
  from only_kinds_of_interest_stored
    [of sample_strptime ?r1 1767225640000000 "[TimerFires ?r2 1767225670000000]"] ev
  show ?thesis by simp
qed

section \<open>Properties of the metrics\<close>

subsection \<open>Read-only access\<close>

text \<open>
  C9. \<open>average_pr_time\<close>, \<open>count_events\<close> and \<open>top_repos\<close> leave the module state as it is,
  for every state and every argument, also when they raise: the stored list, in
  particular, keeps its order, since \<open>average_pr_time\<close> sorts the list it has built and
  not the global one.
\<close>

theorem metrics_read_only:
  "snd (average_pr_time r s) = s
   \<and> snd (count_events now w s) = s
   \<and> snd (top_repos n s) = s"
  by (simp add: average_pr_time_def count_events_def top_repos_def Let_def split: sum.splits)

theorem metrics_read_only_witness:
  "events (snd (average_pr_time ''octo/cat'' (store_of
      [pull_request ''octo/cat'' 1767225640000000, pull_request ''octo/cat'' 1767225600000000])))
     = [pull_request ''octo/cat'' 1767225640000000, pull_request ''octo/cat'' 1767225600000000]"
  using metrics_read_only [of "''octo/cat''" "store_of
      [pull_request ''octo/cat'' 1767225640000000, pull_request ''octo/cat'' 1767225600000000]"]
  by (simp add: store_of_def)

subsection \<open>Average interval between pull requests\<close>

lemma map_insort_key:
  "map f (insort_key f x xs) = insort (f x) (map f xs)"
  by (induction xs) simp_all

lemma map_sort_key: "map f (sort_key f xs) = sort (map f xs)"
  by (induction xs) (simp_all add: map_insort_key)

lemma index_diffs_consecutive:
  fixes f :: "'a \<Rightarrow> int"
  shows "map (\<lambda>i. f (xs ! i) - f (xs ! (i - 1))) [1 ..< length xs] = consecutive_diffs (map f xs)"
proof (induction xs rule: induct_list012)
  case 1
  then show ?case by simp
next
  case (2 x)
  then show ?case by simp
next
  case (3 x y zs)
  have "[1 ..< length (x # y # zs)] = 1 # map Suc [1 ..< length (y # zs)]"
    by (simp add: upt_conv_Cons map_Suc_upt del: upt_Suc)
  then have "map (\<lambda>i. f ((x # y # zs) ! i) - f ((x # y # zs) ! (i - 1))) [1 ..< length (x # y # zs)]
    = (f y - f x) # map (\<lambda>i. f ((y # zs) ! i) - f ((y # zs) ! (i - 1))) [1 ..< length (y # zs)]"
    by (simp add: comp_def del: upt_Suc)
  also have "\<dots> = (f y - f x) # consecutive_diffs (map f (y # zs))"
    using 3 by simp
  finally show ?case by simp
qed

lemma length_consecutive_diffs: "length (consecutive_diffs xs) = length xs - 1"
  by (induction xs rule: consecutive_diffs.induct) simp_all

lemma consecutive_diffs_nonneg:
  "sorted xs \<Longrightarrow> \<forall>d\<in>set (consecutive_diffs xs). 0 \<le> d"
  by (induction xs rule: consecutive_diffs.induct) auto

lemma average_pr_time_refines:
  "fst (average_pr_time r s) = AveragePRInterval r (events s)"
proof -
  let ?sel = "filter (\<lambda>e. type e = ''PullRequestEvent'' \<and> repo e = JStr r) (events s)"
  let ?pr = "sort_key created_at ?sel"
  have diffs: "map (\<lambda>i. total_seconds (created_at (?pr ! i) - created_at (?pr ! (i - 1))))
           [1 ..< length ?pr]
     = map (\<lambda>d. real_of_int d / 1000000) (consecutive_diffs (sort (map created_at ?sel)))"
    (is "?lhs = ?rhs")
  proof -
    have "?lhs = map total_seconds
        (map (\<lambda>i. created_at (?pr ! i) - created_at (?pr ! (i - 1))) [1 ..< length ?pr])"
      by (simp add: comp_def)
    also have "\<dots> = map total_seconds (consecutive_diffs (map created_at ?pr))"
      by (simp only: index_diffs_consecutive)
    also have "\<dots> = ?rhs"
      by (simp add: map_sort_key total_seconds_def)
    finally show ?thesis .
  qed
  show ?thesis
    unfolding average_pr_time_def AveragePRInterval_def Let_def arithmetic_mean_def
    by (simp only: diffs) (simp add: length_consecutive_diffs)
qed


lemma AveragePRInterval_None_iff:
  "AveragePRInterval r evs = None \<longleftrightarrow>
   length (filter (\<lambda>e. type e = ''PullRequestEvent'' \<and> repo e = JStr r) evs) < 2"
  by (simp add: AveragePRInterval_def Let_def)

text \<open>
  C2. \<open>average_pr_time\<close> returns what the specification's \<open>AveragePRInterval\<close> describes: it
  selects the PullRequestEvent records of the repository, sorts their timestamps
  ascending, and returns the arithmetic mean of the consecutive differences in seconds.
  With fewer than two such records it returns \<open>None\<close>, with two or more it returns a
  number, and when the timestamps are \<open>t0\<close>, \<open>t0 + 10 s\<close> and \<open>t0 + 30 s\<close> the
  number is 15. (Python computes the mean in floating point; here it is the exact
  quotient.)
\<close>

theorem average_pr_time_correct:
  "fst (average_pr_time r s) = AveragePRInterval r (events s)
   \<and> (length (filter (\<lambda>e. type e = ''PullRequestEvent'' \<and> repo e = JStr r) (events s)) < 2
        \<longrightarrow> fst (average_pr_time r s) = None)
   \<and> (2 \<le> length (filter (\<lambda>e. type e = ''PullRequestEvent'' \<and> repo e = JStr r) (events s))
        \<longrightarrow> (\<exists>v. fst (average_pr_time r s) = Some v))
   \<and> (sort (map created_at
          (filter (\<lambda>e. type e = ''PullRequestEvent'' \<and> repo e = JStr r) (events s)))
         = [t0, t0 + 10000000, t0 + 30000000]
        \<longrightarrow> fst (average_pr_time r s) = Some 15)"
proof -
  let ?n = "length (filter (\<lambda>e. type e = ''PullRequestEvent'' \<and> repo e = JStr r) (events s))"
  have a: "fst (average_pr_time r s) = AveragePRInterval r (events s)"
    by (rule average_pr_time_refines)
  have b: "?n < 2 \<longrightarrow> fst (average_pr_time r s) = None"
    using AveragePRInterval_None_iff [of r "events s"] a by simp
  have c: "2 \<le> ?n \<longrightarrow> (\<exists>v. fst (average_pr_time r s) = Some v)"
  proof
    assume "2 \<le> ?n"
    then have "AveragePRInterval r (events s) \<noteq> None"
      using AveragePRInterval_None_iff [of r "events s"] by simp
    then show "\<exists>v. fst (average_pr_time r s) = Some v"
      using a by auto
  qed
  have d: "sort (map created_at
          (filter (\<lambda>e. type e = ''PullRequestEvent'' \<and> repo e = JStr r) (events s)))
         = [t0, t0 + 10000000, t0 + 30000000]
        \<longrightarrow> fst (average_pr_time r s) = Some 15"
    by (simp add: a AveragePRInterval_def Let_def arithmetic_mean_def)
  from a b c d show ?thesis by blast
qed

theorem average_pr_time_correct_witness:
  "sort (map created_at
      (filter (\<lambda>e. type e = ''PullRequestEvent'' \<and> repo e = JStr ''octo/cat'')
         [pull_request ''octo/cat'' 1767225630000000, watch ''octo/cat'' 1767225605000000,
          pull_request ''octo/cat'' 1767225600000000, pull_request ''octo/dog'' 1767225601000000,
          pull_request ''octo/cat'' 1767225610000000]))
     = [1767225600000000, 1767225600000000 + 10000000, 1767225600000000 + 30000000]
   \<and> fst (average_pr_time ''octo/cat'' (store_of
         [pull_request ''octo/cat'' 1767225630000000, watch ''octo/cat'' 1767225605000000,
          pull_request ''octo/cat'' 1767225600000000, pull_request ''octo/dog'' 1767225601000000,
          pull_request ''octo/cat'' 1767225610000000])) = Some 15
   \<and> fst (average_pr_time ''octo/dog'' (store_of
         [pull_request ''octo/cat'' 1767225630000000, watch ''octo/cat'' 1767225605000000,
          pull_request ''octo/cat'' 1767225600000000, pull_request ''octo/dog'' 1767225601000000,
          pull_request ''octo/cat'' 1767225610000000])) = None"
proof -
  let ?evs = "[pull_request ''octo/cat'' 1767225630000000, watch ''octo/cat'' 1767225605000000,
          pull_request ''octo/cat'' 1767225600000000, pull_request ''octo/dog'' 1767225601000000,
          pull_request ''octo/cat'' 1767225610000000]"
  have ev: "events (store_of ?evs) = ?evs"
    by (simp add: store_of_def)
  have h1: "sort (map created_at
      (filter (\<lambda>e. type e = ''PullRequestEvent'' \<and> repo e = JStr ''octo/cat'') ?evs))
     = [1767225600000000, 1767225600000000 + 10000000, 1767225600000000 + 30000000]"
    by (simp add: pull_request_def watch_def)
  have h2: "length (filter (\<lambda>e. type e = ''PullRequestEvent'' \<and> repo e = JStr ''octo/dog'') ?evs) < 2"
    by (simp add: pull_request_def watch_def)
  from average_pr_time_correct [of "''octo/cat''" "store_of ?evs" 1767225600000000]
  have "fst (average_pr_time ''octo/cat'' (store_of ?evs)) = Some 15"
    using h1 unfolding ev by blast
  moreover from average_pr_time_correct [of "''octo/dog''" "store_of ?evs" 0]
  have "fst (average_pr_time ''octo/dog'' (store_of ?evs)) = None"
    using h2 unfolding ev by blast
  ultimately show ?thesis using h1 by blast
qed

text \<open>
  C10. Whenever \<open>average_pr_time\<close> returns a number, the number is not negative (and
  the repository has at least two PullRequestEvent records): the differences are taken
  between neighbours of a list sorted by timestamp.
\<close>

theorem average_pr_time_nonneg:
  assumes "fst (average_pr_time r s) = Some v"
  shows "0 \<le> v
    \<and> 2 \<le> length (filter (\<lambda>e. type e = ''PullRequestEvent'' \<and> repo e = JStr r) (events s))"
proof -
  let ?ts = "sort (map created_at
     (filter (\<lambda>e. type e = ''PullRequestEvent'' \<and> repo e = JStr r) (events s)))"
  from assms have av: "AveragePRInterval r (events s) = Some v"
    by (simp add: average_pr_time_refines)
  then have len: "\<not> length ?ts < 2"
    and v: "v = arithmetic_mean (map (\<lambda>d. real_of_int d / 1000000) (consecutive_diffs ?ts))"
    by (auto simp: AveragePRInterval_def Let_def split: if_splits)
  have "\<forall>d\<in>set (consecutive_diffs ?ts). 0 \<le> d"
    by (rule consecutive_diffs_nonneg) simp
  then have "0 \<le> sum_list (map (\<lambda>d. real_of_int d / 1000000) (consecutive_diffs ?ts))"
    by (intro sum_list_nonneg) auto
  then have "0 \<le> v"
    unfolding v arithmetic_mean_def by simp
  then show ?thesis using len by simp
qed

theorem average_pr_time_nonneg_witness:
  "fst (average_pr_time ''octo/cat'' (store_of
      [pull_request ''octo/cat'' 1767225640000000, pull_request ''octo/cat'' 1767225600000000]))
     = Some 40
   \<and> (0::real) \<le> 40"
proof -
  have h: "fst (average_pr_time ''octo/cat'' (store_of
      [pull_request ''octo/cat'' 1767225640000000, pull_request ''octo/cat'' 1767225600000000]))
     = Some 40"
    by (simp add: average_pr_time_def Let_def total_seconds_def store_of_def pull_request_def)
  from average_pr_time_nonneg [OF h] h show ?thesis by simp
qed

subsection \<open>Counting events in a window\<close>

lemma keys_counter_add:
  "fst ` set (counter_add (=) k items) = insert k (fst ` set items)"
proof (induction items)
  case Nil
  then show ?case by simp
next
  case (Cons a items)
  obtain k' c where a: "a = (k', c)" by (cases a)
  show ?case
  proof (cases "k' = k")
    case True
    then show ?thesis using a by auto
  next
    case False
    then show ?thesis using a Cons.IH by auto
  qed
qed

lemma distinct_counter_add:
  "distinct (map fst items) \<Longrightarrow> distinct (map fst (counter_add (=) k items))"
proof (induction items)
  case Nil
  then show ?case by simp
next
  case (Cons a items)
  obtain k' c where a: "a = (k', c)" by (cases a)
  have "k' \<notin> fst ` set (counter_add (=) k items)" if "k' \<noteq> k"
    using that Cons.prems a by (simp add: keys_counter_add)
  then show ?case using Cons a by auto
qed

lemma map_of_counter_add:
  "map_of (counter_add (=) k items) k' =
     (if k' = k then Some (Suc (case map_of items k of None \<Rightarrow> 0 | Some c \<Rightarrow> c))
      else map_of items k')"
  by (induction items) auto

lemma positive_counter_add:
  "\<forall>p\<in>set items. 0 < snd p \<Longrightarrow> \<forall>p\<in>set (counter_add (=) k items). 0 < snd p"
  by (induction items) (fastforce split: if_splits)+

lemma counter_fold:
  assumes "distinct (map fst acc)" and "\<forall>p\<in>set acc. 0 < snd p"
  shows "distinct (map fst (foldl (\<lambda>items k. counter_add (=) k items) acc xs))
    \<and> (\<forall>p\<in>set (foldl (\<lambda>items k. counter_add (=) k items) acc xs). 0 < snd p)
    \<and> (\<forall>k. (case map_of (foldl (\<lambda>items k. counter_add (=) k items) acc xs) k of
               None \<Rightarrow> 0 | Some c \<Rightarrow> c)
            = (case map_of acc k of None \<Rightarrow> 0 | Some c \<Rightarrow> c) + count_list xs k)"
  using assms
proof (induction xs arbitrary: acc)
  case Nil
  then show ?case by simp
next
  case (Cons x xs)
  have d: "distinct (map fst (counter_add (=) x acc))"
    using Cons.prems(1) by (rule distinct_counter_add)
  have p: "\<forall>p\<in>set (counter_add (=) x acc). 0 < snd p"
    using Cons.prems(2) by (rule positive_counter_add)
  from Cons.IH [OF d p] show ?case
    by (simp add: map_of_counter_add)
qed

lemma Counter_eq_props:
  "distinct (map fst (Counter (=) xs))"
  "(k, c) \<in> set (Counter (=) xs) \<Longrightarrow> 0 < c"
  "map_of (Counter (=) xs) k = (if count_list xs k = 0 then None else Some (count_list xs k))"
proof -
  have f: "distinct (map fst (Counter (=) xs))
    \<and> (\<forall>p\<in>set (Counter (=) xs). 0 < snd p)
    \<and> (\<forall>k. (case map_of (Counter (=) xs) k of None \<Rightarrow> 0 | Some c \<Rightarrow> c) = count_list xs k)"
    using counter_fold [of "[]" xs] by (simp add: Counter_def)
  show "distinct (map fst (Counter (=) xs))" using f by simp
  show pos: "(k, c) \<in> set (Counter (=) xs) \<Longrightarrow> 0 < c" for k c using f by force
  show "map_of (Counter (=) xs) k = (if count_list xs k = 0 then None else Some (count_list xs k))"
  proof (cases "map_of (Counter (=) xs) k")
    case None
    then show ?thesis using f by (metis option.simps(4))
  next
    case (Some c)
    then have "(k, c) \<in> set (Counter (=) xs)" by (rule map_of_SomeD)
    then have "0 < c" by (rule pos)
    moreover have "c = count_list xs k" using f Some by (metis option.simps(5))
    ultimately show ?thesis using Some by simp
  qed
qed

lemma count_list_map_type:
  "count_list (map type (filter P evs)) k = length (filter (\<lambda>e. type e = k \<and> P e) evs)"
  by (induction evs) auto


lemma timedelta_minutes_in_range:
  assumes "valid_datetime now" and "valid_datetime (now - w * 60000000)"
  shows "timedelta_minutes w = Inr (w * 60000000)"
proof -
  have "- 5258964960 \<le> w \<and> w \<le> 5258964960"
    using assms by (simp add: valid_datetime_def datetime_min_def datetime_max_def)
  then have "\<bar>w div 1440\<bar> \<le> 999999999"
    by linarith
  then show ?thesis by (simp add: timedelta_minutes_def)
qed

text \<open>
  C4, as amended. Let \<open>now\<close> be the clock reading and \<open>w\<close> the window length in minutes.
  When \<open>now - w\<close> minutes is a datetime that Python can represent (years 1 to 9999),
  \<open>count_events\<close> returns a counter with one entry per kind, in which a kind is mapped to
  the number of stored records of that kind with \<open>created_at \<ge> now - w\<close> minutes, and a
  kind without such a record has no entry. For every other \<open>w\<close> the function raises
  \<open>OverflowError\<close>.
\<close>

theorem count_events_correct:
  assumes "valid_datetime now"
  shows "if valid_datetime (now - w * 60000000)
         then \<exists>counts. fst (count_events now w s) = Inr counts
                \<and> distinct (map fst counts)
                \<and> (\<forall>k. map_of counts k =
                      (if count_in_window (now - w * 60000000) k (events s) = 0 then None
                       else Some (count_in_window (now - w * 60000000) k (events s))))
         else fst (count_events now w s) = Inl OverflowError"
proof (cases "valid_datetime (now - w * 60000000)")
  case True
  let ?recent = "filter (\<lambda>e. created_at e \<ge> now - w * 60000000) (events s)"
  have r: "fst (count_events now w s) = Inr (Counter (=) (map type ?recent))"
    using True timedelta_minutes_in_range [OF assms True]
    by (simp add: count_events_def datetime_sub_def Let_def)
  have "count_list (map type ?recent) k = count_in_window (now - w * 60000000) k (events s)" for k
    by (simp add: count_list_map_type count_in_window_def)
  then show ?thesis
    using True r Counter_eq_props(1) [of "map type ?recent"]
      Counter_eq_props(3) [of "map type ?recent"]
    by simp
next
  case False
  then show ?thesis
    by (simp add: count_events_def datetime_sub_def timedelta_minutes_def Let_def)
qed

theorem count_events_correct_witness:
  "valid_datetime 1767225600000000
   \<and> valid_datetime (1767225600000000 - 10 * 60000000)
   \<and> fst (count_events 1767225600000000 10 (store_of
        [pull_request ''octo/cat'' 1767225000000000, pull_request ''octo/cat'' 1767224999999999,
         pull_request ''octo/dog'' 1767225300000000, watch ''octo/cat'' 1767225400000000,
         pull_request ''octo/cat'' 1767211200000000, pull_request ''octo/cat'' 1767225599000000]))
      = Inr [(''PullRequestEvent'', 3), (''WatchEvent'', 1)]
   \<and> count_in_window (1767225600000000 - 10 * 60000000) ''PullRequestEvent''
        [pull_request ''octo/cat'' 1767225000000000, pull_request ''octo/cat'' 1767224999999999,
         pull_request ''octo/dog'' 1767225300000000, watch ''octo/cat'' 1767225400000000,
         pull_request ''octo/cat'' 1767211200000000, pull_request ''octo/cat'' 1767225599000000] = 3
   \<and> map_of [(''PullRequestEvent'', 3::nat), (''WatchEvent'', 1)] ''IssuesEvent'' = None"
proof -
  let ?evs = "[pull_request ''octo/cat'' 1767225000000000, pull_request ''octo/cat'' 1767224999999999,
         pull_request ''octo/dog'' 1767225300000000, watch ''octo/cat'' 1767225400000000,
         pull_request ''octo/cat'' 1767211200000000, pull_request ''octo/cat'' 1767225599000000]"
  have v: "valid_datetime 1767225600000000"
    by (simp add: valid_datetime_def datetime_min_def datetime_max_def)
  have v': "valid_datetime (1767225600000000 - 10 * 60000000)"
    by (simp add: valid_datetime_def datetime_min_def datetime_max_def)
  have c: "fst (count_events 1767225600000000 10 (store_of ?evs))
      = Inr [(''PullRequestEvent'', 3), (''WatchEvent'', 1)]"
    by (simp add: count_events_def timedelta_minutes_def datetime_sub_def valid_datetime_def
        datetime_min_def datetime_max_def Let_def store_of_def pull_request_def watch_def
        Counter_def)
  from count_events_correct [OF v, of 10 "store_of ?evs"] v' c
  have "\<forall>k. map_of [(''PullRequestEvent'', 3::nat), (''WatchEvent'', 1)] k =
          (if count_in_window (1767225600000000 - 10 * 60000000) k ?evs = 0 then None
           else Some (count_in_window (1767225600000000 - 10 * 60000000) k ?evs))"
    by (simp add: store_of_def)
  from this [rule_format, of "''PullRequestEvent''"] this [rule_format, of "''IssuesEvent''"]
  have "count_in_window (1767225600000000 - 10 * 60000000) ''PullRequestEvent'' ?evs = 3"
    and "map_of [(''PullRequestEvent'', 3::nat), (''WatchEvent'', 1)] ''IssuesEvent'' = None"
    by (simp_all split: if_splits)
  with v v' c show ?thesis by blast
qed

text \<open>
  The claim C4 as it is written, for every window length: at two thousand million
  minutes (some 3800 years) the cutoff lies before the year 1 and \<open>count_events\<close> raises
  instead of returning counts.
\<close>

theorem count_events_overflow_counterexample:
  "fst (count_events 1767225600000000 2000000000 (store_of
        [pull_request ''octo/cat'' 1767225000000000, pull_request ''octo/cat'' 1767211200000000]))
     = Inl OverflowError"
  by (simp add: count_events_def timedelta_minutes_def datetime_sub_def valid_datetime_def
      datetime_min_def datetime_max_def)

subsection \<open>Top repositories\<close>

lemma counter_add_cong:
  "\<forall>k'\<in>fst ` set items. eq k' k = (k' = k) \<Longrightarrow> counter_add eq k items = counter_add (=) k items"
  by (induction items) auto

lemma counter_fold_cong:
  assumes "\<forall>a\<in>S. \<forall>b\<in>S. eq a b = (a = b)" and "fst ` set acc \<subseteq> S" and "set xs \<subseteq> S"
  shows "foldl (\<lambda>items k. counter_add eq k items) acc xs
       = foldl (\<lambda>items k. counter_add (=) k items) acc xs"
  using assms(2,3)
proof (induction xs arbitrary: acc)
  case Nil
  then show ?case by simp
next
  case (Cons x xs)
  have e: "counter_add eq x acc = counter_add (=) x acc"
    using assms(1) Cons.prems by (intro counter_add_cong) auto
  have "fst ` set (counter_add (=) x acc) \<subseteq> S"
    using Cons.prems by (simp add: keys_counter_add)
  from Cons.IH [OF this] Cons.prems e show ?case by simp
qed

lemma Counter_cong:
  "\<forall>a\<in>set xs. \<forall>b\<in>set xs. eq a b = (a = b) \<Longrightarrow> Counter eq xs = Counter (=) xs"
  unfolding Counter_def by (rule counter_fold_cong [where S = "set xs"]) auto

lemma py_eq_JStr [simp]: "py_eq (JStr a) b = (b = JStr a)"
  by (cases b) (auto simp: py_eq_def)

lemma most_common_subset: "set (most_common n items) \<subseteq> set items"
  by (auto simp: most_common_def dest: in_set_takeD)

lemma most_common_length: "length (most_common n items) = min (nat n) (length items)"
  by (simp add: most_common_def min.commute)

lemma most_common_sorted: "sorted_wrt (\<ge>) (map snd (most_common n items))"
proof -
  let ?f = "\<lambda>item :: 'a \<times> nat. - int (snd item)"
  have "sorted (map ?f (sort_key ?f items))" by (rule sorted_sort_key)
  then have "sorted (take (nat n) (map ?f (sort_key ?f items)))"
    by (rule sorted_wrt_take)
  then have "sorted (map ?f (most_common n items))"
    by (simp add: most_common_def take_map)
  then show ?thesis
    by (simp add: sorted_wrt_map)
qed

lemma most_common_distinct:
  "distinct (map fst items) \<Longrightarrow> distinct (map fst (most_common n items))"
proof -
  assume "distinct (map fst items)"
  then have "distinct (map fst (sort_key (\<lambda>item. - int (snd item)) items))"
    by (simp add: distinct_map)
  then show ?thesis
    unfolding most_common_def by (simp add: take_map [symmetric] distinct_take)
qed

lemma most_common_omitted:
  assumes "item \<in> set items" and "item \<notin> set (most_common n items)"
  shows "length (most_common n items) = nat n
    \<and> (\<forall>top\<in>set (most_common n items). snd item \<le> snd top)"
proof -
  let ?f = "\<lambda>item :: 'a \<times> nat. - int (snd item)"
  let ?ys = "sort_key ?f items"
  have "item \<in> set (take (nat n) ?ys @ drop (nat n) ?ys)"
    using assms(1) by simp
  then have d: "item \<in> set (drop (nat n) ?ys)"
    using assms(2) unfolding most_common_def set_append by blast
  then have "nat n < length ?ys"
    by (cases "nat n < length ?ys") auto
  then have len: "length (most_common n items) = nat n"
    by (simp add: most_common_def)
  have "sorted (map ?f (take (nat n) ?ys @ drop (nat n) ?ys))"
    by simp
  then have "\<forall>x\<in>set (take (nat n) ?ys). \<forall>y\<in>set (drop (nat n) ?ys). ?f x \<le> ?f y"
    unfolding map_append sorted_append by auto
  with d have "\<forall>top\<in>set (most_common n items). snd item \<le> snd top"
    unfolding most_common_def by auto
  with len show ?thesis by simp
qed

lemma count_list_map_repo:
  "count_list (map repo (filter (\<lambda>e. type e = ''PullRequestEvent'') evs)) r = pr_count r evs"
  unfolding pr_count_def by (induction evs) auto

text \<open>
  C5. On a store of event records as the data model has them (the repository of a
  record is a string) and for every \<open>n\<close>, \<open>top_repos\<close> returns a list of pairs of a
  repository and a count with at most \<open>n\<close> entries (none for \<open>n \<le> 0\<close>), sorted by
  descending count, with each repository once; each count is the number of
  PullRequestEvent records of that repository in the store, records of other kinds are
  not counted, and a repository with such records is left out only when the list is
  full and no listed count is smaller than its own.
\<close>

theorem top_repos_correct:
  assumes "\<forall>e\<in>set (events s). \<exists>name. repo e = JStr name"
  shows "\<exists>top. fst (top_repos n s) = Inr top
    \<and> length top \<le> nat n
    \<and> sorted_wrt (\<ge>) (map snd top)
    \<and> distinct (map fst top)
    \<and> (\<forall>(r, c)\<in>set top. c = pr_count r (events s) \<and> 0 < c)
    \<and> (\<forall>r. 0 < pr_count r (events s) \<and> r \<notin> fst ` set top \<longrightarrow>
          length top = nat n \<and> (\<forall>(r', c)\<in>set top. pr_count r (events s) \<le> c))"
proof -
  let ?prs = "filter (\<lambda>e. type e = ''PullRequestEvent'') (events s)"
  let ?keys = "map repo ?prs"
  let ?items = "Counter (=) ?keys"
  let ?top = "most_common n ?items"
  have str: "\<forall>k\<in>set ?keys. \<exists>name. k = JStr name"
    using assms by auto
  then have h: "list_all hashable ?keys"
    by (auto simp: list_all_iff)
  have "\<forall>a\<in>set ?keys. \<forall>b\<in>set ?keys. py_eq a b = (a = b)"
    using str by auto
  then have "Counter py_eq ?keys = ?items"
    by (rule Counter_cong)
  with h have res: "fst (top_repos n s) = Inr ?top"
    by (simp add: top_repos_def Let_def)
  have lookup: "map_of ?items r = (if pr_count r (events s) = 0 then None
                                   else Some (pr_count r (events s)))" for r
    using Counter_eq_props(3) [of ?keys r] by (simp add: count_list_map_repo)
  have dist: "distinct (map fst ?items)"
    by (rule Counter_eq_props(1))
  have member: "(r, c) \<in> set ?items \<longleftrightarrow> 0 < c \<and> c = pr_count r (events s)" for r c
  proof -
    have "(r, c) \<in> set ?items \<longleftrightarrow> map_of ?items r = Some c"
      using map_of_eq_Some_iff [OF dist, of r c] by simp
    also have "\<dots> \<longleftrightarrow> 0 < c \<and> c = pr_count r (events s)"
      unfolding lookup by auto
    finally show ?thesis .
  qed
  have len: "length ?top \<le> nat n"
    by (simp add: most_common_length)
  have counts: "\<forall>(r, c)\<in>set ?top. c = pr_count r (events s) \<and> 0 < c"
    using most_common_subset [of n ?items] member by auto
  have omitted: "length ?top = nat n \<and> (\<forall>(r', c)\<in>set ?top. pr_count r (events s) \<le> c)"
    if "0 < pr_count r (events s)" and "r \<notin> fst ` set ?top" for r
  proof -
    have "(r, pr_count r (events s)) \<in> set ?items"
      using that(1) member by simp
    moreover have "(r, pr_count r (events s)) \<notin> set ?top"
      using that(2) by force
    ultimately show ?thesis
      using most_common_omitted [of "(r, pr_count r (events s))" ?items n] by auto
  qed
  have omitted': "\<forall>r. 0 < pr_count r (events s) \<and> r \<notin> fst ` set ?top \<longrightarrow>
          length ?top = nat n \<and> (\<forall>(r', c)\<in>set ?top. pr_count r (events s) \<le> c)"
    using omitted by blast
  show ?thesis
    apply (rule exI [of _ ?top])
    apply (intro conjI)
         apply (rule res)
        apply (rule len)
       apply (rule most_common_sorted)
      apply (rule most_common_distinct [OF dist])
     apply (rule counts)
    apply (rule omitted')
    done
qed

theorem top_repos_correct_witness:
  "fst (top_repos 2 (store_of
      [pull_request ''org/c'' 1767225600000000, pull_request ''org/a'' 1767225601000000,
       pull_request ''org/b'' 1767225602000000, watch ''org/c'' 1767225603000000,
       pull_request ''org/a'' 1767225604000000, pull_request ''org/b'' 1767225605000000,
       pull_request ''org/a'' 1767225606000000, pull_request ''org/b'' 1767225607000000,
       watch ''org/c'' 1767225608000000, pull_request ''org/c'' 1767225609000000,
       pull_request ''org/a'' 1767225610000000, pull_request ''org/b'' 1767225611000000,
       pull_request ''org/a'' 1767225612000000, pull_request ''org/b'' 1767225613000000]))
     = Inr [(JStr ''org/a'', 5), (JStr ''org/b'', 5)]
   \<and> pr_count (JStr ''org/a'')
      [pull_request ''org/c'' 1767225600000000, pull_request ''org/a'' 1767225601000000,
       pull_request ''org/b'' 1767225602000000, watch ''org/c'' 1767225603000000,
       pull_request ''org/a'' 1767225604000000, pull_request ''org/b'' 1767225605000000,
       pull_request ''org/a'' 1767225606000000, pull_request ''org/b'' 1767225607000000,
       watch ''org/c'' 1767225608000000, pull_request ''org/c'' 1767225609000000,
       pull_request ''org/a'' 1767225610000000, pull_request ''org/b'' 1767225611000000,
       pull_request ''org/a'' 1767225612000000, pull_request ''org/b'' 1767225613000000] = 5"
proof -
  let ?evs = "[pull_request ''org/c'' 1767225600000000, pull_request ''org/a'' 1767225601000000,
       pull_request ''org/b'' 1767225602000000, watch ''org/c'' 1767225603000000,
       pull_request ''org/a'' 1767225604000000, pull_request ''org/b'' 1767225605000000,
       pull_request ''org/a'' 1767225606000000, pull_request ''org/b'' 1767225607000000,
       watch ''org/c'' 1767225608000000, pull_request ''org/c'' 1767225609000000,
       pull_request ''org/a'' 1767225610000000, pull_request ''org/b'' 1767225611000000,
       pull_request ''org/a'' 1767225612000000, pull_request ''org/b'' 1767225613000000]"
  have ev: "events (store_of ?evs) = ?evs"
    by (simp add: store_of_def)
  have h: "\<forall>e\<in>set (events (store_of ?evs)). \<exists>name. repo e = JStr name"
    unfolding ev by (simp add: pull_request_def watch_def)
  have v: "fst (top_repos 2 (store_of ?evs)) = Inr [(JStr ''org/a'', 5), (JStr ''org/b'', 5)]"
    by (simp add: top_repos_def store_of_def pull_request_def watch_def Counter_def
        most_common_def Let_def)
  from top_repos_correct [OF h, of 2] v
  have "\<forall>(r, c)\<in>set [(JStr ''org/a'', 5), (JStr ''org/b'', 5)].
          c = pr_count r (events (store_of ?evs)) \<and> 0 < c"
    by auto
  then have "pr_count (JStr ''org/a'') ?evs = 5"
    unfolding ev by simp
  with v show ?thesis by blast
qed

text \<open>
  The hypothesis of C5 is the typing of the data model. The module does not check the
  feed against it: a record whose \<open>name\<close> is a JSON array is stored as it comes, and
  \<open>Counter\<close> then raises \<open>TypeError\<close> on the key that cannot be hashed.
\<close>

lemma top_repos_unhashable_repo:
  "fst (top_repos 5 (store_of
      [\<lparr>type = ''PullRequestEvent'', repo = JList [], created_at = 1767225600000000\<rparr>]))
     = Inl TypeError"
  by (simp add: top_repos_def store_of_def)

section \<open>Reads during a poll cycle\<close>

lemma ingest_views_last:
  "ingest_views strptime items evs \<noteq> []
   \<and> last (ingest_views strptime items evs) = snd (ingest strptime items evs)
   \<and> hd (ingest_views strptime items evs) = evs"
proof (induction items arbitrary: evs)
  case Nil
  then show ?case by simp
next
  case (Cons ev items)
  then show ?case by (cases "ingest_event strptime ev evs") simp_all
qed
lemma cycle_views_ends:
  "cycle_views strptime resp now s \<noteq> []
   \<and> hd (cycle_views strptime resp now s) = events s
   \<and> last (cycle_views strptime resp now s) = events (fetch_github_events strptime resp now s)"
proof -
  have iv: "ingest_views strptime items (events s) \<noteq> []"
    "last (ingest_views strptime items (events s)) = snd (ingest strptime items (events s))"
    "hd (ingest_views strptime items (events s)) = events s" for items
    using ingest_views_last [of strptime items "events s"] by simp_all
  show ?thesis
    by (auto simp: cycle_views_def fetch_github_events_def poll_body_def Let_def iv
        split: response.splits sum.splits prod.splits option.splits)
qed

lemma ingest_event_shift:
  "ingest_event strptime ev evs =
     (case ingest_event strptime ev [] of Inl err \<Rightarrow> Inl err | Inr b \<Rightarrow> Inr (evs @ b))"
  by (simp add: ingest_event_def split: sum.splits json.splits option.splits)

lemma ingest_event_one:
  "ingest_event strptime ev [] = Inr b \<Longrightarrow> b = [] \<or> (\<exists>e. b = [e])"
  by (auto simp: ingest_event_def split: sum.splits json.splits option.splits if_splits)

lemma ingest_shift:
  "ingest strptime items (evs @ acc) =
     (fst (ingest strptime items acc), evs @ snd (ingest strptime items acc))"
proof (induction items arbitrary: acc)
  case Nil
  then show ?case by simp
next
  case (Cons ev items)
  show ?case
  proof (cases "ingest_event strptime ev []")
    case (Inl err)
    then show ?thesis
      using ingest_event_shift [of strptime ev "evs @ acc"] ingest_event_shift [of strptime ev acc]
      by simp
  next
    case (Inr b)
    then show ?thesis
      using ingest_event_shift [of strptime ev "evs @ acc"] ingest_event_shift [of strptime ev acc]
        Cons.IH [of "acc @ b"]
      by simp
  qed
qed

lemma ingest_from_empty:
  "ingest strptime items evs =
     (fst (ingest strptime items []), evs @ snd (ingest strptime items []))"
  using ingest_shift [of strptime items evs "[]"] by simp

lemma ingest_views_shift:
  "ingest_views strptime items (evs @ acc) = map ((@) evs) (ingest_views strptime items acc)"
proof (induction items arbitrary: acc)
  case Nil
  then show ?case by simp
next
  case (Cons ev items)
  show ?case
  proof (cases "ingest_event strptime ev []")
    case (Inl err)
    then show ?thesis
      using ingest_event_shift [of strptime ev "evs @ acc"] ingest_event_shift [of strptime ev acc]
      by simp
  next
    case (Inr b)
    then show ?thesis
      using ingest_event_shift [of strptime ev "evs @ acc"] ingest_event_shift [of strptime ev acc]
        Cons.IH [of "acc @ b"]
      by simp
  qed
qed

lemma prefixes_Cons:
  "(\<lambda>k. take k (e # batch)) ` {..Suc (length batch)}
     = insert [] ((\<lambda>k. e # take k batch) ` {..length batch})"
proof (intro set_eqI iffI)
  fix v
  assume "v \<in> (\<lambda>k. take k (e # batch)) ` {..Suc (length batch)}"
  then obtain k where k: "k \<le> Suc (length batch)" and v: "v = take k (e # batch)"
    by auto
  show "v \<in> insert [] ((\<lambda>k. e # take k batch) ` {..length batch})"
  proof (cases k)
    case 0
    then show ?thesis using v by simp
  next
    case (Suc j)
    then show ?thesis using v k by auto
  qed
next
  fix v
  assume "v \<in> insert [] ((\<lambda>k. e # take k batch) ` {..length batch})"
  then consider "v = []" | k where "k \<le> length batch" and "v = e # take k batch"
    by auto
  then show "v \<in> (\<lambda>k. take k (e # batch)) ` {..Suc (length batch)}"
  proof cases
    case 1
    then show ?thesis by (intro image_eqI [of _ _ 0]) simp_all
  next
    case 2
    then show ?thesis by (intro image_eqI [of _ _ "Suc k"]) simp_all
  qed
qed

lemma ingest_views_empty:
  "set (ingest_views strptime items [])
     = (\<lambda>k. take k (snd (ingest strptime items []))) ` {..length (snd (ingest strptime items []))}"
proof (induction items)
  case Nil
  then show ?case by simp
next
  case (Cons ev items)
  let ?batch = "snd (ingest strptime items [])"
  show ?case
  proof (cases "ingest_event strptime ev []")
    case (Inl err)
    then show ?thesis by simp
  next
    case (Inr b)
    from ingest_event_one [OF Inr] show ?thesis
    proof
      assume "b = []"
      then show ?thesis using Inr Cons.IH by auto
    next
      assume "\<exists>e. b = [e]"
      then obtain e where e: "b = [e]" by blast
      have v: "ingest_views strptime items [e] = map ((@) [e]) (ingest_views strptime items [])"
        using ingest_views_shift [of strptime items "[e]" "[]"] by simp
      have i: "snd (ingest strptime items [e]) = e # ?batch"
        using ingest_from_empty [of strptime items "[e]"] by simp
      have "set (ingest_views strptime (ev # items) [])
          = insert [] ((\<lambda>v. e # v) ` set (ingest_views strptime items []))"
        using Inr e v by simp
      also have "\<dots> = insert [] ((\<lambda>k. e # take k ?batch) ` {..length ?batch})"
        unfolding Cons.IH by (simp add: image_image)
      also have "\<dots> = (\<lambda>k. take k (e # ?batch)) ` {..Suc (length ?batch)}"
        by (rule prefixes_Cons [symmetric])
      finally show ?thesis using Inr e i by simp
    qed
  qed
qed

lemma ingest_views_set:
  "set (ingest_views strptime items evs)
     = (\<lambda>k. evs @ take k (snd (ingest strptime items []))) `
         {..length (snd (ingest strptime items []))}"
proof -
  have "ingest_views strptime items evs = map ((@) evs) (ingest_views strptime items [])"
    using ingest_views_shift [of strptime items evs "[]"] by simp
  then show ?thesis
    by (simp add: ingest_views_empty image_image)
qed


lemma cycle_views_set:
  "set (cycle_views strptime resp now s)
     = (\<lambda>k. events s @ take k (cycle_batch strptime resp s)) `
         {..length (cycle_batch strptime resp s)}
       \<union> (if \<not> stop_event s \<and> fst (poll_body strptime resp now s) = Completed
          then {events (fetch_github_events strptime resp now s)} else {})"
proof (cases "stop_event s \<or> resp = TransportFailure \<or> resp = DecodeFailure")
  case True
  then show ?thesis
    by (auto simp: cycle_views_def cycle_batch_def poll_body_def Let_def)
next
  case False
  then obtain data where Decoded: "resp = Decoded data"
    by (cases resp) auto
  show ?thesis
  proof (cases "is_api_error data \<or> (\<exists>err. py_iter data = Inl err)")
    case True
    then show ?thesis using False Decoded
      by (auto simp: cycle_views_def cycle_batch_def poll_body_def Let_def)
  next
    case f: False
    then obtain items where items: "py_iter data = Inr items"
      by (cases "py_iter data") auto
    have b: "cycle_batch strptime (Decoded data) s = snd (ingest strptime items [])"
      using False Decoded f items by (simp add: cycle_batch_def)
    have ing: "ingest strptime items (events s)
        = (fst (ingest strptime items []), events s @ snd (ingest strptime items []))"
      by (rule ingest_from_empty)
    show ?thesis
    proof (cases "fst (ingest strptime items [])")
      case (Some err)
      then show ?thesis using False Decoded f items ing
        by (simp add: cycle_views_def poll_body_def Let_def b ingest_views_set)
    next
      case None
      show ?thesis
      proof (cases "prune now (events s @ snd (ingest strptime items []))")
        case (Inl err)
        then show ?thesis using False Decoded f items ing None
          by (simp add: cycle_views_def poll_body_def Let_def b ingest_views_set)
      next
        case (Inr kept)
        then show ?thesis using False Decoded f items ing None
          by (simp add: cycle_views_def poll_body_def fetch_github_events_def Let_def b
              ingest_views_set Un_commute)
      qed
    qed
  qed
qed

lemma fetch_events_batch:
  "events (fetch_github_events strptime resp now s)
     = (if \<not> stop_event s \<and> fst (poll_body strptime resp now s) = Completed
        then filter (\<lambda>e. created_at e \<ge> now - EVENT_RETENTION_MINUTES * 60000000)
               (events s @ cycle_batch strptime resp s)
        else events s @ cycle_batch strptime resp s)"
proof (cases "stop_event s \<or> resp = TransportFailure \<or> resp = DecodeFailure")
  case True
  then show ?thesis
    by (auto simp: fetch_github_events_def cycle_batch_def poll_body_def Let_def)
next
  case False
  then obtain data where Decoded: "resp = Decoded data"
    by (cases resp) auto
  show ?thesis
  proof (cases "is_api_error data \<or> (\<exists>err. py_iter data = Inl err)")
    case True
    then show ?thesis using False Decoded
      by (auto simp: fetch_github_events_def cycle_batch_def poll_body_def Let_def)
  next
    case f: False
    then obtain items where items: "py_iter data = Inr items"
      by (cases "py_iter data") auto
    have b: "cycle_batch strptime (Decoded data) s = snd (ingest strptime items [])"
      using False Decoded f items by (simp add: cycle_batch_def)
    have ing: "ingest strptime items (events s)
        = (fst (ingest strptime items []), events s @ snd (ingest strptime items []))"
      by (rule ingest_from_empty)
    show ?thesis
    proof (cases "fst (ingest strptime items [])")
      case (Some err)
      then show ?thesis using False Decoded f items ing
        by (simp add: fetch_github_events_def poll_body_def Let_def b)
    next
      case None
      show ?thesis
      proof (cases "prune now (events s @ snd (ingest strptime items []))")
        case (Inl err)
        then show ?thesis using False Decoded f items ing None
          by (simp add: fetch_github_events_def poll_body_def Let_def b)
      next
        case (Inr kept)
        then show ?thesis using False Decoded f items ing None prune_retention [OF Inr]
          by (simp add: fetch_github_events_def poll_body_def Let_def b)
      qed
    qed
  qed
qed

text \<open>
  C3, as amended. Let the batch be the records that the call's loop appends
  (\<open>cycle_batch\<close>). The values of the stored list during a call of \<open>fetch_github_events\<close>
  begin with the list as it was and end with the list as the call leaves it. Every
  value a request thread can read in between is the list as it was before the cycle
  followed by the first \<open>k\<close> records of the batch, not yet pruned, or it is the list
  as the call leaves it; and every such prefix, for \<open>k\<close> from 0 to the length of the
  batch, is one of these values. The call leaves the old list followed by the whole
  batch, pruned when the cycle ran to its end. (The module takes no lock;
  \<open>list.append\<close> and the assignment of line 80 are each atomic in Python.)
\<close>

theorem readers_see_prefix_of_batch:
  "hd (cycle_views strptime resp now s) = events s
   \<and> last (cycle_views strptime resp now s) = events (fetch_github_events strptime resp now s)
   \<and> (\<forall>v\<in>set (cycle_views strptime resp now s).
         (\<exists>k\<le>length (cycle_batch strptime resp s).
             v = events s @ take k (cycle_batch strptime resp s))
         \<or> v = events (fetch_github_events strptime resp now s))
   \<and> (\<forall>k\<le>length (cycle_batch strptime resp s).
         events s @ take k (cycle_batch strptime resp s) \<in> set (cycle_views strptime resp now s))
   \<and> events (fetch_github_events strptime resp now s)
       = (if \<not> stop_event s \<and> fst (poll_body strptime resp now s) = Completed
          then filter (\<lambda>e. created_at e \<ge> now - EVENT_RETENTION_MINUTES * 60000000)
                 (events s @ cycle_batch strptime resp s)
          else events s @ cycle_batch strptime resp s)"
proof -
  have ends: "hd (cycle_views strptime resp now s) = events s"
    "last (cycle_views strptime resp now s) = events (fetch_github_events strptime resp now s)"
    using cycle_views_ends [of strptime resp now s] by simp_all
  have seen: "\<forall>v\<in>set (cycle_views strptime resp now s).
         (\<exists>k\<le>length (cycle_batch strptime resp s).
             v = events s @ take k (cycle_batch strptime resp s))
         \<or> v = events (fetch_github_events strptime resp now s)"
    unfolding cycle_views_set by (auto split: if_splits)
  have all: "\<forall>k\<le>length (cycle_batch strptime resp s).
         events s @ take k (cycle_batch strptime resp s) \<in> set (cycle_views strptime resp now s)"
    unfolding cycle_views_set by auto
  from ends seen all fetch_events_batch [of strptime resp now s] show ?thesis
    by (intro conjI)
qed

theorem readers_see_prefix_of_batch_witness:
  "cycle_batch sample_strptime
      (Decoded (JList
         [feed_event ''PullRequestEvent'' ''octo/cat'' ''2026-01-01T00:00:00Z'',
          feed_event ''ForkEvent'' ''octo/cat'' ''2026-01-01T00:00:30Z'',
          feed_event ''PullRequestEvent'' ''octo/cat'' ''2026-01-01T00:00:10Z'']))
      (store_of [watch ''octo/old'' 1767000000000000])
     = [pull_request ''octo/cat'' 1767225600000000, pull_request ''octo/cat'' 1767225610000000]
   \<and> cycle_views sample_strptime
      (Decoded (JList
         [feed_event ''PullRequestEvent'' ''octo/cat'' ''2026-01-01T00:00:00Z'',
          feed_event ''ForkEvent'' ''octo/cat'' ''2026-01-01T00:00:30Z'',
          feed_event ''PullRequestEvent'' ''octo/cat'' ''2026-01-01T00:00:10Z'']))
      1767225640000000 (store_of [watch ''octo/old'' 1767000000000000])
     = [[watch ''octo/old'' 1767000000000000],
        [watch ''octo/old'' 1767000000000000, pull_request ''octo/cat'' 1767225600000000],
        [watch ''octo/old'' 1767000000000000, pull_request ''octo/cat'' 1767225600000000],
        [watch ''octo/old'' 1767000000000000, pull_request ''octo/cat'' 1767225600000000,
         pull_request ''octo/cat'' 1767225610000000],
        [pull_request ''octo/cat'' 1767225600000000, pull_request ''octo/cat'' 1767225610000000]]
   \<and> events (fetch_github_events sample_strptime
      (Decoded (JList
         [feed_event ''PullRequestEvent'' ''octo/cat'' ''2026-01-01T00:00:00Z'',
          feed_event ''ForkEvent'' ''octo/cat'' ''2026-01-01T00:00:30Z'',
          feed_event ''PullRequestEvent'' ''octo/cat'' ''2026-01-01T00:00:10Z'']))
      1767225640000000 (store_of [watch ''octo/old'' 1767000000000000]))
     = [pull_request ''octo/cat'' 1767225600000000, pull_request ''octo/cat'' 1767225610000000]"
proof -
  let ?resp = "Decoded (JList
         [feed_event ''PullRequestEvent'' ''octo/cat'' ''2026-01-01T00:00:00Z'',
          feed_event ''ForkEvent'' ''octo/cat'' ''2026-01-01T00:00:30Z'',
          feed_event ''PullRequestEvent'' ''octo/cat'' ''2026-01-01T00:00:10Z''])"
  let ?s = "store_of [watch ''octo/old'' 1767000000000000]"
  have b: "cycle_batch sample_strptime ?resp ?s
     = [pull_request ''octo/cat'' 1767225600000000, pull_request ''octo/cat'' 1767225610000000]"
    by (simp add: cycle_batch_def cycle_eval)
  have v: "cycle_views sample_strptime ?resp 1767225640000000 ?s
     = [[watch ''octo/old'' 1767000000000000],
        [watch ''octo/old'' 1767000000000000, pull_request ''octo/cat'' 1767225600000000],
        [watch ''octo/old'' 1767000000000000, pull_request ''octo/cat'' 1767225600000000],
        [watch ''octo/old'' 1767000000000000, pull_request ''octo/cat'' 1767225600000000,
         pull_request ''octo/cat'' 1767225610000000],
        [pull_request ''octo/cat'' 1767225600000000, pull_request ''octo/cat'' 1767225610000000]]"
    by (simp add: cycle_views_def cycle_eval)
  from readers_see_prefix_of_batch [of sample_strptime ?resp 1767225640000000 ?s]
  have "last (cycle_views sample_strptime ?resp 1767225640000000 ?s)
      = events (fetch_github_events sample_strptime ?resp 1767225640000000 ?s)"
    by blast
  with b v show ?thesis by simp
qed

text \<open>
  The claim C3 as it is written, that a reader sees none or all of the batch with the
  pruning applied: after the first of two records has been appended, the stored list
  holds the stale record and one record of the batch. It is neither the list before
  the cycle nor the list after it, and \<open>top_repos\<close> called at that moment counts one pull
  request where the cycle brings two.
\<close>

theorem partial_batch_visible_counterexample:
  "cycle_views sample_strptime
      (Decoded (JList
         [feed_event ''PullRequestEvent'' ''octo/cat'' ''2026-01-01T00:00:00Z'',
          feed_event ''PullRequestEvent'' ''octo/cat'' ''2026-01-01T00:00:10Z'']))
      1767225640000000 (store_of [watch ''octo/old'' 1767000000000000]) ! 1
     = [watch ''octo/old'' 1767000000000000, pull_request ''octo/cat'' 1767225600000000]
   \<and> events (store_of [watch ''octo/old'' 1767000000000000])
     = [watch ''octo/old'' 1767000000000000]
   \<and> events (fetch_github_events sample_strptime
      (Decoded (JList
         [feed_event ''PullRequestEvent'' ''octo/cat'' ''2026-01-01T00:00:00Z'',
          feed_event ''PullRequestEvent'' ''octo/cat'' ''2026-01-01T00:00:10Z'']))
      1767225640000000 (store_of [watch ''octo/old'' 1767000000000000]))
     = [pull_request ''octo/cat'' 1767225600000000, pull_request ''octo/cat'' 1767225610000000]
   \<and> fst (top_repos 5 (store_of
        [watch ''octo/old'' 1767000000000000, pull_request ''octo/cat'' 1767225600000000]))
     = Inr [(JStr ''octo/cat'', 1)]
   \<and> fst (top_repos 5 (store_of
        [pull_request ''octo/cat'' 1767225600000000, pull_request ''octo/cat'' 1767225610000000]))
     = Inr [(JStr ''octo/cat'', 2)]"
  by (simp add: cycle_views_def cycle_eval top_repos_def Counter_def most_common_def)

end
